theory Spec2Isabelle
  imports Main "HOL-Library.Finite_Map" "HOL-Library.Signed_Division"
begin

section \<open>The timing wheel of timerwheel.go\<close>

text \<open>
  The embedding follows \<^verbatim>\<open>timerwheel.go\<close> function by function. It is sequential: every
  operation runs to completion, so the mutexes of \<^verbatim>\<open>SyncBoolMap\<close> and \<^verbatim>\<open>SyncIntMap\<close>
  have no counterpart. The ticker and the goroutine of \<^verbatim>\<open>Start\<close> are represented by the
  caller applying \<open>step\<close> once per tick, with the reading of \<^verbatim>\<open>time.Now()\<close> as argument.
\<close>

subsection \<open>Machine integers\<close>

text \<open>
  Go's \<^verbatim>\<open>int64\<close>, and \<^verbatim>\<open>int\<close> on a 64-bit platform, are integers in
  \<open>[-2^63, 2^63)\<close> whose arithmetic wraps around. They are modelled as \<open>int\<close> with the
  wrap-around written at every operation of the source that can overflow.
\<close>

definition int64 :: "int \<Rightarrow> bool" where
  "int64 x \<longleftrightarrow> - (2 ^ 63) \<le> x \<and> x < 2 ^ 63"

definition wrap64 :: "int \<Rightarrow> int" where
  "wrap64 x = (x + 2 ^ 63) mod 2 ^ 64 - 2 ^ 63"

subsection \<open>Data\<close>

text \<open>
  A value of type \<^verbatim>\<open>interface{}\<close> used as a map key. Two such values are equal when
  their dynamic types and their values are equal, so a Go \<^verbatim>\<open>int\<close> is kept apart from
  every other comparable value (type \<open>'a\<close>): \<^verbatim>\<open>Remove\<close> uses an \<^verbatim>\<open>int\<close> as a key.
\<close>

datatype 'a iface = GoInt int | GoVal 'a

text \<open>Values of a type that cannot be a map key (a slice, a map, a function), on which
  the map operations panic, and values that are not equal to themselves (a floating-point
  NaN) are outside the model.\<close>

text \<open>The \<^verbatim>\<open>Data\<close> maps of \<^verbatim>\<open>SyncBoolMap\<close> and \<^verbatim>\<open>SyncIntMap\<close>; \<^verbatim>\<open>len\<close> of a map is
  the number of its keys.\<close>

type_synonym 'a SyncBoolMap = "('a iface, bool) fmap"
type_synonym 'a SyncIntMap = "('a iface, int) fmap"

definition len :: "('k, 'v) fmap \<Rightarrow> int" where
  "len m = int (fcard (fmdom m))"

text \<open>
  \<^verbatim>\<open>type Slot *SyncBoolMap\<close>: a pointer, \<open>None\<close> for \<^verbatim>\<open>nil\<close>, otherwise the address of
  a \<^verbatim>\<open>SyncBoolMap\<close> in the store (field \<open>heap\<close> below). An address is an index of the
  store; allocation appends to it. An address beyond the store, which no Go program can
  hold, is treated like \<^verbatim>\<open>nil\<close>.
\<close>

type_synonym Slot = "nat option"

text \<open>A \<^verbatim>\<open>time.Time\<close> is an instant, in nanoseconds since the Unix epoch; the monotonic
  clock reading that a \<^verbatim>\<open>time.Time\<close> may carry is taken to agree with it.\<close>

type_synonym Time = int

definition Before :: "Time \<Rightarrow> Time \<Rightarrow> bool" where
  "Before t u \<longleftrightarrow> t < u"

text \<open>\<^verbatim>\<open>UnixNano\<close> returns an \<^verbatim>\<open>int64\<close>: the instant itself between the years 1678 and
  2262, and its wrap-around outside.\<close>

definition UnixNano :: "Time \<Rightarrow> int" where
  "UnixNano t = wrap64 t"

text \<open>The zero \<^verbatim>\<open>time.Time\<close>, January 1 of year 1.\<close>

definition zeroTime :: Time where
  "zeroTime = - 62135596800 * 1000000000"

datatype error = ErrScheduleInPast | ErrSchedulePastHighThreshold | ErrSlotIsFull

text \<open>The run-time panics of the operations.\<close>

datatype panic =
    DivideByZero
  | IndexOutOfRange
  | NilDereference
  | MakeSliceLenOutOfRange
  | NonPositiveInterval

text \<open>
  \<^verbatim>\<open>TimerWheel\<close>. The fields \<^verbatim>\<open>ticker\<close> and \<^verbatim>\<open>expiredDataFunc\<close> are left out: the
  call of the latter is the result of \<open>step\<close>. The field \<open>heap\<close> is the store of the
  \<^verbatim>\<open>SyncBoolMap\<close> objects allocated so far.
\<close>

record 'a TimerWheel =
  tickTime :: int
  slotCount :: int
  CurrentStartTime :: Time
  CurrentIndex :: int
  slots :: "Slot list"
  maxSlotSize :: int
  idSlotMap :: "'a SyncIntMap"
  heap :: "'a SyncBoolMap list"

subsection \<open>New and Start\<close>

text \<open>The loop of \<^verbatim>\<open>New\<close>: \<^verbatim>\<open>for ; i < slotCount; i++\<close>, each round allocating an empty
  \<^verbatim>\<open>SyncBoolMap\<close> and storing its address in \<^verbatim>\<open>tw.slots[i]\<close>.\<close>

function New_loop :: "int \<Rightarrow> 'a TimerWheel \<Rightarrow> 'a TimerWheel" where
  "New_loop i tw =
     (if i < slotCount tw
      then New_loop (i + 1)
             (tw\<lparr>heap := heap tw @ [fmempty],
                 slots := (slots tw)[nat i := Some (length (heap tw))]\<rparr>)
      else tw)"
  by pat_completeness auto
termination
  by (relation "measure (\<lambda>(i, tw). nat (slotCount tw - i))") auto

declare New_loop.simps [simp del]

text \<open>\<^verbatim>\<open>make([]Slot, slotCount)\<close> panics on a negative length and otherwise yields
  \<^verbatim>\<open>slotCount\<close> nil pointers.\<close>

definition New :: "int \<Rightarrow> int \<Rightarrow> int \<Rightarrow> panic + 'a TimerWheel" where
  "New tickTime' slotCount' maxSlotSize' =
     (if slotCount' < 0 then Inl MakeSliceLenOutOfRange
      else Inr (New_loop 0
             \<lparr>tickTime = tickTime',
              slotCount = slotCount',
              CurrentStartTime = zeroTime,
              CurrentIndex = 0,
              slots = replicate (nat slotCount') None,
              maxSlotSize = maxSlotSize',
              idSlotMap = fmempty,
              heap = []\<rparr>))"

text \<open>\<^verbatim>\<open>Start\<close>: \<^verbatim>\<open>time.NewTicker\<close> panics unless the period is positive; then
  \<^verbatim>\<open>CurrentStartTime\<close> is set to \<^verbatim>\<open>time.Now()\<close>, here the argument \<open>now\<close>.\<close>

definition Start :: "Time \<Rightarrow> 'a TimerWheel \<Rightarrow> panic + 'a TimerWheel" where
  "Start now tw =
     (if tickTime tw \<le> 0 then Inl NonPositiveInterval
      else Inr (tw\<lparr>CurrentStartTime := now\<rparr>))"

subsection \<open>step\<close>

text \<open>
  One rotation step. The result is the call \<^verbatim>\<open>tw.expiredDataFunc(start, expiredSlot)\<close>
  that ends the step, as the pair of its arguments, and the wheel after the step. The
  loop over the keys of \<^verbatim>\<open>expiredSlot.Data\<close> deletes each of them from
  \<^verbatim>\<open>tw.idSlotMap.Data\<close>; the order of a \<^verbatim>\<open>range\<close> over a map is not specified and the
  deletions commute, so the loop is the removal of that key set.
\<close>

definition step :: "Time \<Rightarrow> 'a TimerWheel \<Rightarrow> panic + ((Time \<times> nat) \<times> 'a TimerWheel)" where
  "step now tw =
     (let start = CurrentStartTime tw;
          expiredIndex = CurrentIndex tw;
          tw = tw\<lparr>CurrentIndex := wrap64 (CurrentIndex tw + 1)\<rparr>;
          tw = (if CurrentIndex tw \<ge> slotCount tw then tw\<lparr>CurrentIndex := 0\<rparr> else tw);
          tw = tw\<lparr>CurrentStartTime := now\<rparr>
      in if expiredIndex < 0 \<or> int (length (slots tw)) \<le> expiredIndex
         then Inl IndexOutOfRange
         else (case slots tw ! nat expiredIndex of
             None \<Rightarrow> Inl NilDereference
           | Some expiredSlot \<Rightarrow>
               if length (heap tw) \<le> expiredSlot then Inl NilDereference
               else
                 let tw = tw\<lparr>slots := (slots tw)[nat expiredIndex := Some (length (heap tw))],
                             heap := heap tw @ [fmempty]\<rparr>;
                     tw = tw\<lparr>idSlotMap :=
                             fmdrop_fset (fmdom (heap tw ! expiredSlot)) (idSlotMap tw)\<rparr>
                 in Inr ((start, expiredSlot), tw)))"

subsection \<open>ScheduleAt and ScheduleIn\<close>

text \<open>Lines 110 and 111: the \<^verbatim>\<open>int64\<close> difference of the two \<^verbatim>\<open>UnixNano\<close> readings,
  divided by the tick. Go's \<^verbatim>\<open>/\<close> truncates towards zero (\<open>sdiv\<close>), panics on a zero
  divisor and wraps around on \<^verbatim>\<open>MinInt64 / -1\<close>.\<close>

definition ScheduleAt_steps :: "Time \<Rightarrow> 'a TimerWheel \<Rightarrow> panic + int" where
  "ScheduleAt_steps at tw =
     (let d = wrap64 (UnixNano at - UnixNano (CurrentStartTime tw))
      in if tickTime tw = 0 then Inl DivideByZero
         else Inr (wrap64 (d sdiv tickTime tw)))"

text \<open>Go's \<^verbatim>\<open>%\<close> takes the sign of the dividend (\<open>smod\<close>) and panics on a zero
  divisor. An error return leaves the wheel as it was.\<close>

definition ScheduleAt ::
  "Time \<Rightarrow> 'a iface \<Rightarrow> 'a TimerWheel \<Rightarrow> panic + (error option \<times> 'a TimerWheel)" where
  "ScheduleAt at data tw =
     (if Before at (CurrentStartTime tw) then Inr (Some ErrScheduleInPast, tw)
      else (case ScheduleAt_steps at tw of
          Inl p \<Rightarrow> Inl p
        | Inr steps \<Rightarrow>
            if steps \<ge> slotCount tw then Inr (Some ErrSchedulePastHighThreshold, tw)
            else if slotCount tw = 0 then Inl DivideByZero
            else
              let index = wrap64 (CurrentIndex tw + steps) smod slotCount tw
              in if index < 0 \<or> int (length (slots tw)) \<le> index then Inl IndexOutOfRange
                 else (case slots tw ! nat index of
                     None \<Rightarrow> Inl NilDereference
                   | Some slot \<Rightarrow>
                       if length (heap tw) \<le> slot then Inl NilDereference
                       else if maxSlotSize tw > 0 \<and> len (heap tw ! slot) > maxSlotSize tw
                       then Inr (Some ErrSlotIsFull, tw)
                       else Inr (None,
                              tw\<lparr>heap := (heap tw)[slot := fmupd data True (heap tw ! slot)],
                                 idSlotMap := fmupd data index (idSlotMap tw)\<rparr>))))"

text \<open>\<^verbatim>\<open>ScheduleIn\<close>: \<^verbatim>\<open>time.Now().Add(in)\<close>, then \<^verbatim>\<open>ScheduleAt\<close>.\<close>

definition ScheduleIn ::
  "Time \<Rightarrow> int \<Rightarrow> 'a iface \<Rightarrow> 'a TimerWheel \<Rightarrow> panic + (error option \<times> 'a TimerWheel)" where
  "ScheduleIn now in' data tw = ScheduleAt (now + in') data tw"

subsection \<open>Remove\<close>

text \<open>Line 151 is \<^verbatim>\<open>delete(slot.Data, index)\<close>: the key that is deleted is the
  \<^verbatim>\<open>int\<close> found in the identity index, not \<^verbatim>\<open>data\<close>.\<close>

definition Remove :: "'a iface \<Rightarrow> 'a TimerWheel \<Rightarrow> panic + 'a TimerWheel" where
  "Remove data tw =
     (case fmlookup (idSlotMap tw) data of
        None \<Rightarrow> Inr tw
      | Some index \<Rightarrow>
          if index < 0 \<or> int (length (slots tw)) \<le> index then Inl IndexOutOfRange
          else (case slots tw ! nat index of
              None \<Rightarrow> Inl NilDereference
            | Some slot \<Rightarrow>
                if length (heap tw) \<le> slot then Inl NilDereference
                else Inr (tw\<lparr>heap := (heap tw)[slot := fmdrop (GoInt index) (heap tw ! slot)]\<rparr>)))"

subsection \<open>Observations\<close>

text \<open>The contents of the bucket that slot \<open>i\<close> of the ring refers to, when there is
  one.\<close>

definition slotData :: "'a TimerWheel \<Rightarrow> int \<Rightarrow> 'a SyncBoolMap option" where
  "slotData tw i =
     (if 0 \<le> i \<and> i < int (length (slots tw))
      then (case slots tw ! nat i of
          None \<Rightarrow> None
        | Some p \<Rightarrow> if p < length (heap tw) then Some (heap tw ! p) else None)
      else None)"

text \<open>
  The shape of a wheel made by \<^verbatim>\<open>New\<close>: \<^verbatim>\<open>slotCount\<close> is the length of the ring and a
  Go \<^verbatim>\<open>int\<close>, every slot of the ring refers to an allocated bucket of its own, and the
  identity index holds indices of the ring only.
\<close>

fun allocated :: "nat \<Rightarrow> Slot \<Rightarrow> bool" where
  "allocated n None \<longleftrightarrow> False"
| "allocated n (Some p) \<longleftrightarrow> p < n"

definition wheel_inv :: "'a TimerWheel \<Rightarrow> bool" where
  "wheel_inv tw \<longleftrightarrow>
     slotCount tw = int (length (slots tw)) \<and>
     int64 (slotCount tw) \<and>
     list_all (allocated (length (heap tw))) (slots tw) \<and>
     distinct (slots tw) \<and>
     fmpred (\<lambda>k i. 0 \<le> i \<and> i < slotCount tw) (idSlotMap tw)"

text \<open>The wheels that \<^verbatim>\<open>New\<close> and the operations produce. The slot count given to \<^verbatim>\<open>New\<close>
  is a Go \<^verbatim>\<open>int\<close>.\<close>

inductive reachable :: "'a TimerWheel \<Rightarrow> bool" where
  New: "int64 n \<Longrightarrow> New t n k = Inr tw \<Longrightarrow> reachable tw"
| Start: "reachable tw \<Longrightarrow> Start now tw = Inr tw' \<Longrightarrow> reachable tw'"
| ScheduleAt: "reachable tw \<Longrightarrow> ScheduleAt at x tw = Inr (e, tw') \<Longrightarrow> reachable tw'"
| Remove: "reachable tw \<Longrightarrow> Remove x tw = Inr tw' \<Longrightarrow> reachable tw'"
| step: "reachable tw \<Longrightarrow> step now tw = Inr (call, tw') \<Longrightarrow> reachable tw'"

subsection \<open>The rotation driver\<close>

text \<open>The goroutine of \<^verbatim>\<open>Start\<close>, \<^verbatim>\<open>for range tw.ticker.C { tw.step() }\<close>, over the
  instants of finitely many ticks; the result lists the calls of the expiration callback
  in order.\<close>

fun ticks ::
  "Time list \<Rightarrow> 'a TimerWheel \<Rightarrow> panic + ((Time \<times> nat) list \<times> 'a TimerWheel)" where
  "ticks [] tw = Inr ([], tw)"
| "ticks (now # rest) tw =
     (case step now tw of
        Inl p \<Rightarrow> Inl p
      | Inr (call, tw') \<Rightarrow>
          (case ticks rest tw' of
             Inl p \<Rightarrow> Inl p
           | Inr (calls, tw'') \<Rightarrow> Inr (call # calls, tw'')))"

subsection \<open>A concrete wheel\<close>

text \<open>The wheel of \<^verbatim>\<open>New(time.Second, 10, 0, f)\<close> after \<^verbatim>\<open>Start\<close> at the instant
  \<open>1700000000\<close> seconds after the epoch.\<close>

definition wheel0 :: "string TimerWheel" where
  "wheel0 =
     \<lparr>tickTime = 1000000000,
      slotCount = 10,
      CurrentStartTime = 1700000000000000000,
      CurrentIndex = 0,
      slots = [Some 0, Some 1, Some 2, Some 3, Some 4, Some 5, Some 6, Some 7, Some 8, Some 9],
      maxSlotSize = 0,
      idSlotMap = fmempty,
      heap = [fmempty, fmempty, fmempty, fmempty, fmempty,
              fmempty, fmempty, fmempty, fmempty, fmempty]\<rparr>"

text \<open>\<open>wheel0\<close> after \<^verbatim>\<open>ScheduleAt\<close> of \<open>''a''\<close> 3.4 seconds after its start: \<open>''a''\<close> is in
  the bucket of slot 3.\<close>

definition wheel_a :: "string TimerWheel" where
  "wheel_a =
     wheel0\<lparr>heap := (heap wheel0)[3 := fmupd (GoVal ''a'') True fmempty],
            idSlotMap := fmupd (GoVal ''a'') 3 fmempty\<rparr>"

text \<open>\<open>wheel_a\<close> after three ticks, one second apart: slot 3 is the current one.\<close>

definition wheel_a3 :: "string TimerWheel" where
  "wheel_a3 =
     wheel_a\<lparr>CurrentIndex := 3,
             CurrentStartTime := 1700000003000000000,
             slots := [Some 10, Some 11, Some 12, Some 3, Some 4,
                       Some 5, Some 6, Some 7, Some 8, Some 9],
             heap := heap wheel_a @ [fmempty, fmempty, fmempty]\<rparr>"

text \<open>\<open>wheel_a3\<close> after a fourth tick: the bucket of \<open>''a''\<close> has been retired.\<close>

definition wheel_a4 :: "string TimerWheel" where
  "wheel_a4 =
     wheel_a3\<lparr>CurrentIndex := 4,
              CurrentStartTime := 1700000004000000000,
              slots := [Some 10, Some 11, Some 12, Some 13, Some 4,
                        Some 5, Some 6, Some 7, Some 8, Some 9],
              heap := heap wheel_a3 @ [fmempty],
              idSlotMap := fmempty\<rparr>"

text \<open>\<open>wheel_a\<close> after \<^verbatim>\<open>ScheduleAt\<close> of \<open>''a''\<close> again, now 5.2 seconds after the start.\<close>

definition wheel_aa :: "string TimerWheel" where
  "wheel_aa =
     wheel_a\<lparr>heap := (heap wheel_a)[5 := fmupd (GoVal ''a'') True fmempty],
            idSlotMap := fmupd (GoVal ''a'') 5 (fmupd (GoVal ''a'') 3 fmempty)\<rparr>"

text \<open>The wheel of \<^verbatim>\<open>New(time.Second, 10, 1, f)\<close> after \<^verbatim>\<open>Start\<close> at the same instant, and
  that wheel after \<^verbatim>\<open>ScheduleAt\<close> of \<open>''a''\<close> and then of \<open>''b''\<close>, 3.4 and 3.5 seconds after
  the start.\<close>

definition wheel_cap :: "string TimerWheel" where
  "wheel_cap = wheel0\<lparr>maxSlotSize := 1\<rparr>"

definition wheel_cap_a :: "string TimerWheel" where
  "wheel_cap_a =
     wheel_cap\<lparr>heap := (heap wheel_cap)[3 := fmupd (GoVal ''a'') True fmempty],
               idSlotMap := fmupd (GoVal ''a'') 3 fmempty\<rparr>"

definition wheel_cap_ab :: "string TimerWheel" where
  "wheel_cap_ab =
     wheel_cap_a\<lparr>heap := (heap wheel_cap_a)
                   [3 := fmupd (GoVal ''b'') True (fmupd (GoVal ''a'') True fmempty)],
                 idSlotMap := fmupd (GoVal ''b'') 3 (fmupd (GoVal ''a'') 3 fmempty)\<rparr>"

text \<open>The wheel of \<^verbatim>\<open>New(8760*time.Hour, 600, 0, f)\<close>, a tick of one year, after
  \<^verbatim>\<open>Start\<close> at the same instant; and what \<^verbatim>\<open>ScheduleAt\<close> of \<open>''a''\<close> 590 ticks after the
  start makes of it.\<close>

definition wheel_year :: "string TimerWheel" where
  "wheel_year =
     \<lparr>tickTime = 31536000000000000,
      slotCount = 600,
      CurrentStartTime = 1700000000000000000,
      CurrentIndex = 0,
      slots = map Some [0..<600],
      maxSlotSize = 0,
      idSlotMap = fmempty,
      heap = replicate 600 fmempty\<rparr>"

definition wheel_year_a :: "string TimerWheel" where
  "wheel_year_a =
     wheel_year\<lparr>heap := (heap wheel_year)[5 := fmupd (GoVal ''a'') True fmempty],
                idSlotMap := fmupd (GoVal ''a'') 5 fmempty\<rparr>"

text \<open>\<open>wheel0\<close> with the exported field \<^verbatim>\<open>CurrentIndex\<close> set to \<^verbatim>\<open>math.MaxInt64\<close>; and what
  \<^verbatim>\<open>ScheduleAt\<close> of \<open>''a''\<close> 9 seconds after the start makes of it.\<close>

definition wheel_max :: "string TimerWheel" where
  "wheel_max = wheel0\<lparr>CurrentIndex := 9223372036854775807\<rparr>"

definition wheel_max_a :: "string TimerWheel" where
  "wheel_max_a =
     wheel_max\<lparr>heap := (heap wheel_max)[0 := fmupd (GoVal ''a'') True fmempty],
               idSlotMap := fmupd (GoVal ''a'') 0 fmempty\<rparr>"

section \<open>Auxiliary facts\<close>

subsection \<open>Arithmetic of the machine integers\<close>

lemma wrap64_id: "int64 x \<Longrightarrow> wrap64 x = x"
  by (simp add: int64_def wrap64_def)

lemma mod_shift_diff:
  "((a + c) mod m - (b + c) mod m + c) mod m = (a - b + c) mod (m::int)"
proof -
  have "((a + c) mod m - (b + c) mod m + c) mod m = (((a + c) - (b + c)) mod m + c) mod m"
    by (metis mod_add_left_eq mod_diff_eq)
  also have "\<dots> = (a - b + c) mod m"
    by (simp add: mod_add_left_eq)
  finally show ?thesis .
qed

lemma wrap64_UnixNano_diff: "wrap64 (UnixNano a - UnixNano b) = wrap64 (a - b)"
  unfolding wrap64_def UnixNano_def
  using mod_shift_diff [of a "2 ^ 63" "2 ^ 64" b] by simp

lemma sdiv_nonneg: "0 \<le> a \<Longrightarrow> 0 < b \<Longrightarrow> a sdiv b = a div (b::int)"
  by (simp add: signed_divide_int_def sgn_if)

lemma smod_nonneg: "0 \<le> a \<Longrightarrow> 0 < b \<Longrightarrow> a smod b = a mod (b::int)"
  by (simp add: signed_modulo_int_def sgn_if)

text \<open>On a success the index is not negative, so Go's remainder and the mathematical one
  agree even for a negative dividend.\<close>

lemma smod_eq_mod_if_nonneg:
  assumes "0 < b" and "0 \<le> a smod b"
  shows "a smod b = a mod (b::int)"
proof (cases "0 \<le> a")
  case True
  then show ?thesis using assms(1) by (simp add: smod_nonneg)
next
  case False
  then have m: "a smod b = - (\<bar>a\<bar> mod b)"
    using assms(1) by (simp add: signed_modulo_int_def sgn_if)
  moreover have "0 \<le> \<bar>a\<bar> mod b" using assms(1) by simp
  ultimately have z: "\<bar>a\<bar> mod b = 0" using assms(2) by simp
  then have "b dvd \<bar>a\<bar>" by (simp add: dvd_eq_mod_eq_0)
  then have "b dvd a" by simp
  then show ?thesis using m z by (simp add: dvd_eq_mod_eq_0)
qed

subsection \<open>The number of steps\<close>

lemma ScheduleAt_steps_floor:
  assumes "CurrentStartTime tw \<le> at" "at - CurrentStartTime tw < 2 ^ 63" "0 < tickTime tw"
  shows "ScheduleAt_steps at tw = Inr ((at - CurrentStartTime tw) div tickTime tw)"
proof -
  let ?d = "at - CurrentStartTime tw"
  have d: "int64 ?d" using assms by (simp add: int64_def)
  have q0: "0 \<le> ?d div tickTime tw" using assms by (simp add: pos_imp_zdiv_nonneg_iff)
  have "?d div tickTime tw \<le> ?d"
    using assms by (cases "?d = 0") (simp_all add: int_div_le_self)
  then have q: "int64 (?d div tickTime tw)" using q0 assms by (simp add: int64_def)
  show ?thesis
    using assms q d by (simp add: ScheduleAt_steps_def wrap64_UnixNano_diff wrap64_id sdiv_nonneg)
qed

text \<open>With a negative tick the truncated and the floored quotient agree where the latter
  is not negative: the difference is 0 there.\<close>

lemma ScheduleAt_steps_nonneg:
  assumes "CurrentStartTime tw \<le> at" "at - CurrentStartTime tw < 2 ^ 63"
    and "tickTime tw \<noteq> 0" and "0 \<le> (at - CurrentStartTime tw) div tickTime tw"
  shows "ScheduleAt_steps at tw = Inr ((at - CurrentStartTime tw) div tickTime tw)"
proof (cases "0 < tickTime tw")
  case True
  then show ?thesis using assms(1,2) by (rule ScheduleAt_steps_floor [rotated 2])
next
  case False
  then have neg: "tickTime tw < 0" using assms(3) by simp
  then have "at - CurrentStartTime tw \<le> 0"
    using assms(4) by (simp add: neg_imp_zdiv_nonneg_iff)
  then have "at - CurrentStartTime tw = 0" using assms(1) by simp
  then show ?thesis
    using assms(3) by (simp add: ScheduleAt_steps_def wrap64_UnixNano_diff wrap64_def)
qed

subsection \<open>The results of the operations\<close>

lemma slotData_SomeD:
  "slotData tw i = Some b \<Longrightarrow>
     0 \<le> i \<and> i < int (length (slots tw)) \<and>
     (\<exists>p. slots tw ! nat i = Some p \<and> p < length (heap tw) \<and> heap tw ! p = b)"
  by (auto simp: slotData_def split: if_splits option.splits)

lemma ScheduleAt_success:
  assumes "ScheduleAt at x tw = Inr (None, tw')"
  shows "\<exists>steps index slot.
           \<not> Before at (CurrentStartTime tw) \<and>
           ScheduleAt_steps at tw = Inr steps \<and> steps < slotCount tw \<and> slotCount tw \<noteq> 0 \<and>
           index = wrap64 (CurrentIndex tw + steps) smod slotCount tw \<and>
           0 \<le> index \<and> index < int (length (slots tw)) \<and>
           slots tw ! nat index = Some slot \<and> slot < length (heap tw) \<and>
           \<not> (maxSlotSize tw > 0 \<and> len (heap tw ! slot) > maxSlotSize tw) \<and>
           tw' = tw\<lparr>heap := (heap tw)[slot := fmupd x True (heap tw ! slot)],
                      idSlotMap := fmupd x index (idSlotMap tw)\<rparr>"
  using assms
  by (simp add: ScheduleAt_def Let_def split: sum.splits option.splits if_splits)

lemma ScheduleAt_error_unchanged:
  "ScheduleAt at x tw = Inr (Some e, tw') \<Longrightarrow> tw' = tw"
  by (auto simp: ScheduleAt_def Let_def split: sum.splits option.splits if_splits)

lemma Remove_present:
  assumes "fmlookup (idSlotMap tw) x = Some i" "Remove x tw = Inr tw'"
  shows "\<exists>p. 0 \<le> i \<and> i < int (length (slots tw)) \<and> slots tw ! nat i = Some p \<and>
             p < length (heap tw) \<and>
             tw' = tw\<lparr>heap := (heap tw)[p := fmdrop (GoInt i) (heap tw ! p)]\<rparr>"
  using assms by (auto simp: Remove_def split: if_splits option.splits)

lemma step_result:
  assumes "slotData tw (CurrentIndex tw) = Some b"
  shows "\<exists>p. slots tw ! nat (CurrentIndex tw) = Some p \<and> p < length (heap tw) \<and>
           heap tw ! p = b \<and>
           step now tw = Inr ((CurrentStartTime tw, p),
             tw\<lparr>CurrentIndex := (if slotCount tw \<le> wrap64 (CurrentIndex tw + 1) then 0
                                   else wrap64 (CurrentIndex tw + 1)),
                CurrentStartTime := now,
                slots := (slots tw)[nat (CurrentIndex tw) := Some (length (heap tw))],
                heap := heap tw @ [fmempty],
                idSlotMap := fmdrop_fset (fmdom b) (idSlotMap tw)\<rparr>)"
proof -
  from slotData_SomeD [OF assms] obtain p where
    r: "0 \<le> CurrentIndex tw" "CurrentIndex tw < int (length (slots tw))" and
    p: "slots tw ! nat (CurrentIndex tw) = Some p" "p < length (heap tw)" "heap tw ! p = b"
    by blast
  show ?thesis
    using r p by (simp add: step_def Let_def nth_append)
qed

lemma step_Inr:
  assumes "step now tw = Inr (call, tw')"
  shows "\<exists>b. slotData tw (CurrentIndex tw) = Some b"
  using assms
  by (auto simp: step_def Let_def slotData_def split: if_splits option.splits)

text \<open>What the operations leave alone.\<close>

lemma ScheduleAt_frame:
  assumes "ScheduleAt at x tw = Inr (e, tw')"
  shows "CurrentIndex tw' = CurrentIndex tw \<and> CurrentStartTime tw' = CurrentStartTime tw \<and>
      tickTime tw' = tickTime tw \<and> slotCount tw' = slotCount tw \<and>
      maxSlotSize tw' = maxSlotSize tw \<and> slots tw' = slots tw \<and>
      length (heap tw') = length (heap tw) \<and>
      (\<exists>p. \<forall>q. q \<noteq> p \<longrightarrow> heap tw' ! q = heap tw ! q)"
proof (cases e)
  case None
  from ScheduleAt_success [OF assms [unfolded None]] obtain index slot where
    tw': "tw' = tw\<lparr>heap := (heap tw)[slot := fmupd x True (heap tw ! slot)],
                      idSlotMap := fmupd x index (idSlotMap tw)\<rparr>"
    by blast
  have "\<forall>q. q \<noteq> slot \<longrightarrow> heap tw' ! q = heap tw ! q" using tw' by simp
  then have "\<exists>p. \<forall>q. q \<noteq> p \<longrightarrow> heap tw' ! q = heap tw ! q" by blast
  then show ?thesis using tw' by simp
next
  case (Some err)
  then have "tw' = tw" using assms ScheduleAt_error_unchanged by blast
  then show ?thesis by simp
qed

lemma Remove_frame:
  assumes "Remove x tw = Inr tw'"
  shows "CurrentIndex tw' = CurrentIndex tw \<and> CurrentStartTime tw' = CurrentStartTime tw \<and>
      tickTime tw' = tickTime tw \<and> slotCount tw' = slotCount tw \<and>
      maxSlotSize tw' = maxSlotSize tw \<and> slots tw' = slots tw \<and>
      length (heap tw') = length (heap tw) \<and>
      (\<exists>p. \<forall>q. q \<noteq> p \<longrightarrow> heap tw' ! q = heap tw ! q)"
proof (cases "fmlookup (idSlotMap tw) x")
  case None
  then have "tw' = tw" using assms by (simp add: Remove_def)
  then show ?thesis by simp
next
  case (Some i)
  from Remove_present [OF Some assms] obtain p where
    tw': "tw' = tw\<lparr>heap := (heap tw)[p := fmdrop (GoInt i) (heap tw ! p)]\<rparr>"
    by blast
  have "\<forall>q. q \<noteq> p \<longrightarrow> heap tw' ! q = heap tw ! q" using tw' by simp
  then have "\<exists>p. \<forall>q. q \<noteq> p \<longrightarrow> heap tw' ! q = heap tw ! q" by blast
  then show ?thesis using tw' by simp
qed

lemma step_frame:
  assumes "step now tw = Inr (call, tw')"
  shows "CurrentStartTime tw' = now \<and> slots tw' \<noteq> slots tw \<and>
         tickTime tw' = tickTime tw \<and> slotCount tw' = slotCount tw \<and>
         maxSlotSize tw' = maxSlotSize tw"
proof -
  from step_Inr [OF assms] obtain b where b: "slotData tw (CurrentIndex tw) = Some b" by blast
  from slotData_SomeD [OF b] have r: "nat (CurrentIndex tw) < length (slots tw)" by auto
  from step_result [OF b, of now] assms obtain p where
    p: "slots tw ! nat (CurrentIndex tw) = Some p" "p < length (heap tw)" and
    tw': "tw' = tw\<lparr>CurrentIndex := (if slotCount tw \<le> wrap64 (CurrentIndex tw + 1) then 0
                                   else wrap64 (CurrentIndex tw + 1)),
                CurrentStartTime := now,
                slots := (slots tw)[nat (CurrentIndex tw) := Some (length (heap tw))],
                heap := heap tw @ [fmempty],
                idSlotMap := fmdrop_fset (fmdom b) (idSlotMap tw)\<rparr>"
    by auto
  have "slots tw' ! nat (CurrentIndex tw) = Some (length (heap tw))" using tw' r by simp
  then have "slots tw' \<noteq> slots tw" using p by auto
  then show ?thesis using tw' by simp
qed

text \<open>Evaluation at the concrete wheels.\<close>

lemmas ScheduleAt_eval =
  ScheduleAt_def ScheduleAt_steps_def UnixNano_def Before_def wrap64_def
  signed_divide_int_def signed_modulo_int_def len_def fcard_fempty fcard_finsert_if

lemma ScheduleAt_wheel0_a:
  "ScheduleAt 1700000003400000000 (GoVal ''a'') wheel0 = Inr (None, wheel_a)"
  by (simp add: ScheduleAt_eval wheel_a_def wheel0_def)

subsection \<open>The shape of the wheel\<close>

lemma upt_0_Suc_map: "map f [0..<Suc m] = f 0 # map (\<lambda>k. f (Suc k)) [0..<m]"
proof -
  have "[0..<Suc m] = 0 # map Suc [0..<m]"
    by (simp add: upt_conv_Cons map_Suc_upt del: upt_Suc)
  then show ?thesis by (simp add: comp_def del: upt_Suc)
qed

lemma New_loop_closed:
  assumes "0 \<le> i" "i \<le> slotCount tw" "length (slots tw) = nat (slotCount tw)"
  shows "New_loop i tw =
           tw\<lparr>heap := heap tw @ replicate (nat (slotCount tw - i)) fmempty,
              slots := take (nat i) (slots tw) @
                       map (\<lambda>k. Some (length (heap tw) + k)) [0..<nat (slotCount tw - i)]\<rparr>"
  using assms
proof (induction i tw rule: New_loop.induct)
  case (1 i tw)
  show ?case
  proof (cases "i < slotCount tw")
    case False
    then have e: "i = slotCount tw" using "1.prems" by simp
    have "New_loop i tw = tw" using False by (subst New_loop.simps) simp
    moreover have "take (nat i) (slots tw) = slots tw" using e "1.prems" by simp
    ultimately show ?thesis using e by simp
  next
    case True
    let ?tw1 = "tw\<lparr>heap := heap tw @ [fmempty],
                    slots := (slots tw)[nat i := Some (length (heap tw))]\<rparr>"
    define m where "m = nat (slotCount tw - (i + 1))"
    have m: "nat (slotCount tw - i) = Suc m" "nat (slotCount tw - (i + 1)) = m"
      using True unfolding m_def by linarith+
    have j: "nat i < length (slots tw)" "nat (i + 1) = Suc (nat i)"
      using True "1.prems" by simp_all
    have ih: "New_loop (i + 1) ?tw1 =
           ?tw1\<lparr>heap := heap ?tw1 @ replicate (nat (slotCount ?tw1 - (i + 1))) fmempty,
              slots := take (nat (i + 1)) (slots ?tw1) @
                       map (\<lambda>k. Some (length (heap ?tw1) + k))
                         [0..<nat (slotCount ?tw1 - (i + 1))]\<rparr>"
      using True "1.prems" by (intro "1.IH") simp_all
    have tk: "take (Suc (nat i)) ((slots tw)[nat i := Some (length (heap tw))]) =
              take (nat i) (slots tw) @ [Some (length (heap tw))]"
      using j(1) by (simp add: take_Suc_conv_app_nth)
    have "New_loop i tw = New_loop (i + 1) ?tw1"
      using True by (simp add: New_loop.simps [of i tw])
    also note ih
    finally show ?thesis
      using m j(2) tk by (simp add: upt_0_Suc_map del: upt_Suc)
  qed
qed

lemma New_closed:
  assumes "0 \<le> n"
  shows "New t n k =
     Inr \<lparr>tickTime = t, slotCount = n, CurrentStartTime = zeroTime, CurrentIndex = 0,
          slots = map Some [0..<nat n], maxSlotSize = k, idSlotMap = fmempty,
          heap = replicate (nat n) fmempty\<rparr>"
  using assms by (simp add: New_def New_loop_closed)

lemma wheel0_reachable:
  "\<exists>tw. New 1000000000 10 0 = Inr tw \<and> Start 1700000000000000000 tw = Inr wheel0"
proof -
  have u: "[0..<10] = [0, 1, 2, 3, 4, 5, 6, 7, 8, 9]" by code_simp
  have r: "replicate 10 x = [x, x, x, x, x, x, x, x, x, x]" for x :: "'b"
    by (simp add: numeral_eq_Suc)
  show ?thesis
    unfolding New_closed [of 10, simplified] Start_def wheel0_def u r by simp
qed

lemma wheel_inv_New:
  assumes "New t n k = Inr tw" "n < 2 ^ 63"
  shows "wheel_inv tw"
proof -
  have n: "0 \<le> n" using assms(1) by (simp add: New_def split: if_splits)
  have "tw = \<lparr>tickTime = t, slotCount = n, CurrentStartTime = zeroTime, CurrentIndex = 0,
          slots = map Some [0..<nat n], maxSlotSize = k, idSlotMap = fmempty,
          heap = replicate (nat n) fmempty\<rparr>"
    using assms(1) unfolding New_closed [OF n] by auto
  then show ?thesis
    using n assms(2) by (simp add: wheel_inv_def int64_def list_all_iff distinct_map)
qed

lemma wheel_inv_Start: "Start now tw = Inr tw' \<Longrightarrow> wheel_inv tw \<Longrightarrow> wheel_inv tw'"
  by (auto simp: Start_def wheel_inv_def split: if_splits)

lemma wheel_inv_ScheduleAt:
  assumes "ScheduleAt at x tw = Inr (e, tw')" "wheel_inv tw"
  shows "wheel_inv tw'"
proof (cases e)
  case None
  from ScheduleAt_success [OF assms(1) [unfolded None]] obtain index slot where
    r: "0 \<le> index" "index < int (length (slots tw))" and
    tw': "tw' = tw\<lparr>heap := (heap tw)[slot := fmupd x True (heap tw ! slot)],
                      idSlotMap := fmupd x index (idSlotMap tw)\<rparr>"
    by blast
  show ?thesis
    using assms(2) r unfolding wheel_inv_def tw' by (auto intro: fmpred_upd)
next
  case (Some err)
  then have "tw' = tw" using assms(1) ScheduleAt_error_unchanged by blast
  then show ?thesis using assms(2) by simp
qed

lemma wheel_inv_Remove:
  assumes "Remove x tw = Inr tw'" "wheel_inv tw"
  shows "wheel_inv tw'"
  using assms by (auto simp: Remove_def wheel_inv_def split: option.splits if_splits)

lemma wheel_inv_step:
  assumes "step now tw = Inr (call, tw')" "wheel_inv tw"
  shows "wheel_inv tw'"
proof -
  from step_Inr [OF assms(1)] obtain b where b: "slotData tw (CurrentIndex tw) = Some b" by blast
  from step_result [OF b, of now] assms(1) have
    tw': "tw' = tw\<lparr>CurrentIndex := (if slotCount tw \<le> wrap64 (CurrentIndex tw + 1) then 0
                            else wrap64 (CurrentIndex tw + 1)),
         CurrentStartTime := now,
         slots := (slots tw)[nat (CurrentIndex tw) := Some (length (heap tw))],
         heap := heap tw @ [fmempty],
         idSlotMap := fmdrop_fset (fmdom b) (idSlotMap tw)\<rparr>"
    by auto
  have ok: "\<forall>s \<in> set (slots tw). allocated (length (heap tw)) s"
    using assms(2) unfolding wheel_inv_def list_all_iff by blast
  then have fresh: "Some (length (heap tw)) \<notin> set (slots tw)" by force
  have a: "list_all (allocated (length (heap tw'))) (slots tw')"
    unfolding list_all_iff
  proof
    fix s assume "s \<in> set (slots tw')"
    then have "s \<in> set ((slots tw)[nat (CurrentIndex tw) := Some (length (heap tw))])"
      by (simp add: tw')
    then have "s = Some (length (heap tw)) \<or> s \<in> set (slots tw)"
      using set_update_subset_insert by fastforce
    then have "allocated (Suc (length (heap tw))) s"
      using ok by (cases s) (auto intro: less_SucI)
    then show "allocated (length (heap tw')) s" by (simp add: tw')
  qed
  have d: "distinct (slots tw')"
    using assms(2) fresh unfolding wheel_inv_def by (simp add: tw' distinct_list_update)
  have "fmpred (\<lambda>k i. 0 \<le> i \<and> i < slotCount tw) (fmdrop_fset (fmdom b) (idSlotMap tw))"
    using assms(2) unfolding wheel_inv_def by (blast intro: fmpred_drop_fset)
  then have f: "fmpred (\<lambda>k i. 0 \<le> i \<and> i < slotCount tw') (idSlotMap tw')"
    by (simp add: tw')
  have c: "slotCount tw' = int (length (slots tw'))" "int64 (slotCount tw')"
    using assms(2) unfolding wheel_inv_def by (auto simp: tw')
  show ?thesis
    unfolding wheel_inv_def using a d f c by blast
qed

lemma wheel_inv_slotData:
  assumes "wheel_inv tw" "0 \<le> i" "i < slotCount tw"
  shows "\<exists>b. slotData tw i = Some b"
proof -
  have i: "nat i < length (slots tw)" using assms by (simp add: wheel_inv_def)
  have "list_all (allocated (length (heap tw))) (slots tw)"
    using assms(1) unfolding wheel_inv_def by blast
  then have "allocated (length (heap tw)) (slots tw ! nat i)"
    using i by (simp add: list_all_length)
  then show ?thesis using assms(2) i by (cases "slots tw ! nat i") (simp_all add: slotData_def)
qed

text \<open>A step of a well-formed wheel returns, and moves the index to the next slot of the
  ring.\<close>

lemma step_index:
  assumes "wheel_inv tw" and "0 \<le> CurrentIndex tw" and "CurrentIndex tw < slotCount tw"
  shows "\<exists>call tw'. step now tw = Inr (call, tw') \<and> slotCount tw' = slotCount tw \<and>
           CurrentIndex tw' = (CurrentIndex tw + 1) mod slotCount tw"
proof -
  obtain b where "slotData tw (CurrentIndex tw) = Some b"
    using wheel_inv_slotData [OF assms] by blast
  from step_result [OF this, of now] obtain call tw' where
    st: "step now tw = Inr (call, tw')" and
    sc: "slotCount tw' = slotCount tw" and
    ci: "CurrentIndex tw' = (if slotCount tw \<le> wrap64 (CurrentIndex tw + 1) then 0
                            else wrap64 (CurrentIndex tw + 1))"
    by auto
  have "int64 (slotCount tw)" using assms(1) unfolding wheel_inv_def by blast
  then have w: "wrap64 (CurrentIndex tw + 1) = CurrentIndex tw + 1"
    using assms(2,3) by (intro wrap64_id) (simp add: int64_def)
  have "CurrentIndex tw' = (CurrentIndex tw + 1) mod slotCount tw"
  proof (cases "slotCount tw \<le> CurrentIndex tw + 1")
    case True
    then have "CurrentIndex tw + 1 = slotCount tw" using assms(3) by simp
    then show ?thesis using ci w by simp
  next
    case False
    then show ?thesis using ci w assms(2) by simp
  qed
  then show ?thesis using st sc by blast
qed

lemma ticks_index:
  assumes "wheel_inv tw" and "0 \<le> CurrentIndex tw" and "CurrentIndex tw < slotCount tw"
  shows "\<exists>calls tw'. ticks ts tw = Inr (calls, tw') \<and> length calls = length ts \<and>
           CurrentIndex tw' = (CurrentIndex tw + int (length ts)) mod slotCount tw"
  using assms
proof (induction ts arbitrary: tw)
  case Nil
  then show ?case by simp
next
  case (Cons now ts)
  from step_index [OF Cons.prems, of now] obtain call tw1 where
    st: "step now tw = Inr (call, tw1)" and sc: "slotCount tw1 = slotCount tw" and
    ci: "CurrentIndex tw1 = (CurrentIndex tw + 1) mod slotCount tw"
    by blast
  have pos: "0 < slotCount tw" using Cons.prems by simp
  have inv1: "wheel_inv tw1" using wheel_inv_step [OF st Cons.prems(1)] .
  have r1: "0 \<le> CurrentIndex tw1" "CurrentIndex tw1 < slotCount tw1"
    using ci sc pos by simp_all
  from Cons.IH [OF inv1 r1] obtain calls tw' where
    t: "ticks ts tw1 = Inr (calls, tw')" and l: "length calls = length ts" and
    c: "CurrentIndex tw' = (CurrentIndex tw1 + int (length ts)) mod slotCount tw1"
    by blast
  have "CurrentIndex tw' = ((CurrentIndex tw + 1) mod slotCount tw + int (length ts)) mod slotCount tw"
    using c ci sc by simp
  also have "\<dots> = (CurrentIndex tw + 1 + int (length ts)) mod slotCount tw"
    by (rule mod_add_left_eq)
  also have "CurrentIndex tw + 1 + int (length ts) = CurrentIndex tw + int (length (now # ts))"
    by simp
  finally have "CurrentIndex tw' = (CurrentIndex tw + int (length (now # ts))) mod slotCount tw" .
  then show ?case using st t l by simp
qed

subsection \<open>Reachable wheels\<close>

lemma New_CurrentIndex: "New t n k = Inr tw \<Longrightarrow> CurrentIndex tw = 0 \<and> slotCount tw = n"
proof -
  assume a: "New t n k = Inr tw"
  then have n: "0 \<le> n" by (simp add: New_def split: if_splits)
  show ?thesis using a unfolding New_closed [OF n] by auto
qed

lemma reachable_wheel_inv: "reachable tw \<Longrightarrow> wheel_inv tw"
proof (induction rule: reachable.induct)
  case (New n t k tw)
  then have "n < 2 ^ 63" by (simp add: int64_def)
  then show ?case using New.hyps(2) by (rule wheel_inv_New [rotated])
next
  case (Start tw now tw')
  then show ?case using wheel_inv_Start by blast
next
  case (ScheduleAt tw at x e tw')
  then show ?case using wheel_inv_ScheduleAt by blast
next
  case (Remove tw x tw')
  then show ?case using wheel_inv_Remove by blast
next
  case (step tw now call tw')
  then show ?case using wheel_inv_step by blast
qed

text \<open>Unless a caller writes the exported field, \<^verbatim>\<open>CurrentIndex\<close> is an index of the
  ring in every wheel that has a slot.\<close>

lemma reachable_CurrentIndex:
  "reachable tw \<Longrightarrow> 0 < slotCount tw \<Longrightarrow> 0 \<le> CurrentIndex tw \<and> CurrentIndex tw < slotCount tw"
proof (induction rule: reachable.induct)
  case (New n t k tw)
  then show ?case using New_CurrentIndex [of t n k tw] by simp
next
  case (Start tw now tw')
  then show ?case by (auto simp: Start_def split: if_splits)
next
  case (ScheduleAt tw at x e tw')
  then show ?case using ScheduleAt_frame [of at x tw e tw'] by simp
next
  case (Remove tw x tw')
  then show ?case using Remove_frame [of x tw tw'] by simp
next
  case (step tw now call tw')
  have sc: "slotCount tw' = slotCount tw" using step_frame [OF step.hyps(2)] by simp
  then have r: "0 \<le> CurrentIndex tw" "CurrentIndex tw < slotCount tw"
    using step.IH step.prems by simp_all
  from step_index [OF reachable_wheel_inv [OF step.hyps(1)] r, of now] step.hyps(2)
  have "CurrentIndex tw' = (CurrentIndex tw + 1) mod slotCount tw" by auto
  then show ?case using sc step.prems by simp
qed

lemma wheel_a3_reachable:
  "ticks [1700000001000000000, 1700000002000000000, 1700000003000000000] wheel_a =
     Inr ([(1700000000000000000, 0), (1700000001000000000, 1), (1700000002000000000, 2)],
          wheel_a3)"
  by (simp add: step_def wrap64_def wheel_a3_def wheel_a_def wheel0_def)

lemma wheel_cap_reachable:
  "\<exists>tw. New 1000000000 10 1 = Inr tw \<and> Start 1700000000000000000 tw = Inr wheel_cap"
proof -
  have u: "[0..<10] = [0, 1, 2, 3, 4, 5, 6, 7, 8, 9]" by code_simp
  have r: "replicate 10 x = [x, x, x, x, x, x, x, x, x, x]" for x :: "'b"
    by (simp add: numeral_eq_Suc)
  show ?thesis
    unfolding New_closed [of 10, simplified] Start_def wheel_cap_def wheel0_def u r by simp
qed

lemma wheel_year_reachable:
  "New 31536000000000000 600 0 =
     Inr (wheel_year\<lparr>CurrentStartTime := zeroTime\<rparr>) \<and>
   Start 1700000000000000000 (wheel_year\<lparr>CurrentStartTime := zeroTime\<rparr>) = Inr wheel_year"
  by (simp add: New_closed Start_def wheel_year_def)

section \<open>Properties of the operations\<close>

subsection \<open>ScheduleAt\<close>

text \<open>
  C3. \<^verbatim>\<open>ScheduleAt(at, x)\<close> returns \<^verbatim>\<open>ErrScheduleInPast\<close> if and only if \<open>at\<close> is before
  \<^verbatim>\<open>CurrentStartTime\<close>, and then the wheel it leaves is the wheel it found: no bucket
  and no entry of the identity index has changed.
\<close>

theorem ScheduleAt_in_past:
  "(ScheduleAt at x tw = Inr (Some ErrScheduleInPast, tw) \<longleftrightarrow> Before at (CurrentStartTime tw)) \<and>
   (\<forall>r. ScheduleAt at x tw = Inr (Some ErrScheduleInPast, r) \<longrightarrow> r = tw)"
  by (auto simp: ScheduleAt_def Let_def split: sum.splits option.splits if_splits)

theorem ScheduleAt_in_past_witness:
  "Before 1699999999999999999 (CurrentStartTime wheel0) \<and>
   ScheduleAt 1699999999999999999 (GoVal ''a'') wheel0 = Inr (Some ErrScheduleInPast, wheel0)"
  using ScheduleAt_in_past [of 1699999999999999999 "GoVal ''a''" wheel0]
  by (simp add: wheel0_def Before_def)




text \<open>
  C5, amended. Let \<^verbatim>\<open>ScheduleAt(at, x)\<close> succeed, let \<open>steps\<close>, the floor of the difference
  of the times divided by the tick, be not negative, and let the difference be less than
  \<open>2^63\<close> nanoseconds and the sum \<open>CurrentIndex + steps\<close> an \<^verbatim>\<open>int64\<close>. Then \<open>steps\<close> is
  less than \<^verbatim>\<open>slotCount\<close>, \<open>x\<close> has been inserted into the bucket of slot
  \<open>(CurrentIndex + steps) mod slotCount\<close>, and the identity index maps \<open>x\<close> to that slot.
\<close>

theorem ScheduleAt_places_identity:
  assumes "ScheduleAt at x tw = Inr (None, tw')"
    and "at - CurrentStartTime tw < 2 ^ 63"
    and "0 \<le> (at - CurrentStartTime tw) div tickTime tw"
    and "int64 (CurrentIndex tw + (at - CurrentStartTime tw) div tickTime tw)"
  shows "let steps = (at - CurrentStartTime tw) div tickTime tw;
             index = (CurrentIndex tw + steps) mod slotCount tw
         in steps < slotCount tw \<and>
            fmlookup (idSlotMap tw') x = Some index \<and>
            (\<exists>b. slotData tw index = Some b \<and> slotData tw' index = Some (fmupd x True b))"
proof -
  let ?steps = "(at - CurrentStartTime tw) div tickTime tw"
  let ?a = "CurrentIndex tw + ?steps"
  from ScheduleAt_success [OF assms(1)] obtain steps index slot where
    nb: "\<not> Before at (CurrentStartTime tw)" and
    st: "ScheduleAt_steps at tw = Inr steps" and lt: "steps < slotCount tw" and
    ix: "index = wrap64 (CurrentIndex tw + steps) smod slotCount tw" and
    r: "0 \<le> index" "index < int (length (slots tw))" and
    sl: "slots tw ! nat index = Some slot" "slot < length (heap tw)" and
    tw': "tw' = tw\<lparr>heap := (heap tw)[slot := fmupd x True (heap tw ! slot)],
                      idSlotMap := fmupd x index (idSlotMap tw)\<rparr>"
    by blast
  have le: "CurrentStartTime tw \<le> at" using nb by (simp add: Before_def)
  have "tickTime tw \<noteq> 0" using st by (auto simp: ScheduleAt_steps_def Let_def split: if_splits)
  then have steps: "steps = ?steps"
    using ScheduleAt_steps_nonneg [OF le assms(2) _ assms(3)] st by simp
  have sc: "0 < slotCount tw" using assms(3) lt steps by simp
  have "index = ?a smod slotCount tw" using ix steps assms(4) by (simp add: wrap64_id)
  then have idx: "index = ?a mod slotCount tw"
    using smod_eq_mod_if_nonneg [OF sc, of ?a] r(1) by simp
  have sd: "slotData tw index = Some (heap tw ! slot)"
    using r sl by (simp add: slotData_def)
  have sd': "slotData tw' index = Some (fmupd x True (heap tw ! slot))"
    using r sl tw' by (simp add: slotData_def)
  show ?thesis
    using lt steps idx sd sd' tw' by (simp add: Let_def)
qed

theorem ScheduleAt_places_identity_witness:
  "ScheduleAt 1700000003400000000 (GoVal ''a'') wheel0 = Inr (None, wheel_a) \<and>
   (1700000003400000000 - CurrentStartTime wheel0) div tickTime wheel0 = 3 \<and>
   CurrentIndex wheel0 = 0 \<and> slotCount wheel0 = 10 \<and>
   fmlookup (idSlotMap wheel_a) (GoVal ''a'') = Some 3 \<and>
   slotData wheel0 3 = Some fmempty \<and>
   slotData wheel_a 3 = Some (fmupd (GoVal ''a'') True fmempty)"
proof -
  have h: "ScheduleAt 1700000003400000000 (GoVal ''a'') wheel0 = Inr (None, wheel_a)"
    by (simp add: ScheduleAt_eval wheel_a_def wheel0_def)
  have v: "(1700000003400000000 - CurrentStartTime wheel0) div tickTime wheel0 = 3"
    "CurrentIndex wheel0 = 0" "slotCount wheel0 = 10"
    by (simp_all add: wheel0_def)
  have "1700000003400000000 - CurrentStartTime wheel0 < 2 ^ 63" by (simp add: wheel0_def)
  from ScheduleAt_places_identity [OF h this] v
  have "fmlookup (idSlotMap wheel_a) (GoVal ''a'') = Some 3 \<and>
        (\<exists>b. slotData wheel0 3 = Some b \<and> slotData wheel_a 3 = Some (fmupd (GoVal ''a'') True b))"
    by (simp add: int64_def Let_def)
  moreover have "slotData wheel0 3 = Some fmempty" by (simp add: slotData_def wheel0_def)
  ultimately show ?thesis using h v by auto
qed

text \<open>
  C5 as it is stated, for every successful call, fails twice. On \<open>wheel_year\<close>, with a tick
  of one year and 600 slots, a target 590 ticks after the start has 590 steps, less than
  the slot count; the difference is more than \<open>2^64\<close> nanoseconds and wraps around, and the
  call succeeds with \<open>''a''\<close> in the bucket of slot 5, the index mapping it to 5, and the
  bucket of slot 590 empty. On \<open>wheel_max\<close>, where a caller has set the exported
  \<^verbatim>\<open>CurrentIndex\<close> to the largest \<^verbatim>\<open>int\<close>, a target 9 steps ahead succeeds with \<open>''a''\<close> in
  the bucket of slot 0, while \<open>(CurrentIndex + 9) mod 10\<close> is 6: the sum has wrapped
  around.
\<close>

theorem ScheduleAt_places_identity_counterexample:
  "ScheduleAt 20306240000000000000 (GoVal ''a'') wheel_year = Inr (None, wheel_year_a) \<and>
   (20306240000000000000 - CurrentStartTime wheel_year) div tickTime wheel_year = 590 \<and>
   slotCount wheel_year = 600 \<and>
   (CurrentIndex wheel_year + 590) mod slotCount wheel_year = 590 \<and>
   fmlookup (idSlotMap wheel_year_a) (GoVal ''a'') = Some 5 \<and>
   slotData wheel_year_a 5 = Some (fmupd (GoVal ''a'') True fmempty) \<and>
   slotData wheel_year_a 590 = Some fmempty \<and>
   ScheduleAt 1700000009000000000 (GoVal ''a'') wheel_max = Inr (None, wheel_max_a) \<and>
   (1700000009000000000 - CurrentStartTime wheel_max) div tickTime wheel_max = 9 \<and>
   slotCount wheel_max = 10 \<and>
   (CurrentIndex wheel_max + 9) mod slotCount wheel_max = 6 \<and>
   fmlookup (idSlotMap wheel_max_a) (GoVal ''a'') = Some 0 \<and>
   slotData wheel_max_a 0 = Some (fmupd (GoVal ''a'') True fmempty) \<and>
   slotData wheel_max_a 6 = Some fmempty"
proof -
  have 1: "ScheduleAt 20306240000000000000 (GoVal ''a'') wheel_year = Inr (None, wheel_year_a)"
    by (simp add: ScheduleAt_eval wheel_year_a_def wheel_year_def)
  have 2: "(20306240000000000000 - CurrentStartTime wheel_year) div tickTime wheel_year = 590"
    "slotCount wheel_year = 600"
    "(CurrentIndex wheel_year + 590) mod slotCount wheel_year = 590"
    by (simp_all add: wheel_year_def)
  have 3: "fmlookup (idSlotMap wheel_year_a) (GoVal ''a'') = Some 5"
    "slotData wheel_year_a 5 = Some (fmupd (GoVal ''a'') True fmempty)"
    "slotData wheel_year_a 590 = Some fmempty"
    by (simp_all add: slotData_def wheel_year_a_def wheel_year_def)
  have 4: "ScheduleAt 1700000009000000000 (GoVal ''a'') wheel_max = Inr (None, wheel_max_a)"
    by (simp add: ScheduleAt_eval wheel_max_a_def wheel_max_def wheel0_def)
  have 5: "(1700000009000000000 - CurrentStartTime wheel_max) div tickTime wheel_max = 9"
    "slotCount wheel_max = 10"
    "(CurrentIndex wheel_max + 9) mod slotCount wheel_max = 6"
    by (simp_all add: wheel_max_def wheel0_def)
  have 6: "fmlookup (idSlotMap wheel_max_a) (GoVal ''a'') = Some 0"
    "slotData wheel_max_a 0 = Some (fmupd (GoVal ''a'') True fmempty)"
    "slotData wheel_max_a 6 = Some fmempty"
    by (simp_all add: slotData_def wheel_max_a_def wheel_max_def wheel0_def)
  show ?thesis using 1 2 3 4 5 6 by blast
qed

text \<open>The capacity check of \<^verbatim>\<open>ScheduleAt\<close> rejects a bucket that holds more than
  \<^verbatim>\<open>maxSlotSize\<close> entries and admits one that holds exactly \<^verbatim>\<open>maxSlotSize\<close>, which then
  holds up to one entry more.\<close>

lemma ScheduleAt_SlotIsFull:
  assumes "ScheduleAt at x tw = Inr (Some ErrSlotIsFull, tw')"
  shows "\<exists>i b. slotData tw i = Some b \<and> 0 < maxSlotSize tw \<and> maxSlotSize tw < len b"
proof -
  have "\<exists>steps index slot.
          ScheduleAt_steps at tw = Inr steps \<and>
          index = wrap64 (CurrentIndex tw + steps) smod slotCount tw \<and>
          0 \<le> index \<and> index < int (length (slots tw)) \<and>
          slots tw ! nat index = Some slot \<and> slot < length (heap tw) \<and>
          0 < maxSlotSize tw \<and> maxSlotSize tw < len (heap tw ! slot)"
    using assms
    by (simp add: ScheduleAt_def Let_def split: sum.splits option.splits if_splits)
  then obtain index slot where
    "0 \<le> index" "index < int (length (slots tw))"
    "slots tw ! nat index = Some slot" "slot < length (heap tw)"
    "0 < maxSlotSize tw" "maxSlotSize tw < len (heap tw ! slot)"
    by blast
  then have "slotData tw index = Some (heap tw ! slot) \<and> 0 < maxSlotSize tw \<and>
             maxSlotSize tw < len (heap tw ! slot)"
    by (simp add: slotData_def)
  then show ?thesis by blast
qed

lemma len_fmupd_le: "len (fmupd k v m) \<le> len m + 1"
  by (simp add: len_def fcard_finsert_if)

lemma ScheduleAt_len_bound:
  assumes "ScheduleAt at x tw = Inr (None, tw')" and "0 < maxSlotSize tw"
  shows "\<exists>i b. fmlookup (idSlotMap tw') x = Some i \<and> slotData tw i = Some b \<and>
           len b \<le> maxSlotSize tw \<and>
           slotData tw' i = Some (fmupd x True b) \<and>
           len (fmupd x True b) \<le> maxSlotSize tw + 1"
proof -
  from ScheduleAt_success [OF assms(1)] obtain index slot where
    r: "0 \<le> index" "index < int (length (slots tw))" and
    sl: "slots tw ! nat index = Some slot" "slot < length (heap tw)" and
    c: "\<not> (maxSlotSize tw > 0 \<and> len (heap tw ! slot) > maxSlotSize tw)" and
    tw': "tw' = tw\<lparr>heap := (heap tw)[slot := fmupd x True (heap tw ! slot)],
                      idSlotMap := fmupd x index (idSlotMap tw)\<rparr>"
    by blast
  have l: "len (heap tw ! slot) \<le> maxSlotSize tw" using c assms(2) by simp
  then have l': "len (fmupd x True (heap tw ! slot)) \<le> maxSlotSize tw + 1"
    using len_fmupd_le [of x True "heap tw ! slot"] by simp
  have "slotData tw index = Some (heap tw ! slot)" using r sl by (simp add: slotData_def)
  moreover have "slotData tw' index = Some (fmupd x True (heap tw ! slot))"
    using r sl tw' by (simp add: slotData_def)
  moreover have "fmlookup (idSlotMap tw') x = Some index" using tw' by simp
  ultimately show ?thesis using l l' by blast
qed

text \<open>
  C2, at \<^verbatim>\<open>maxSlotSize = 1\<close>. Two insertions into the bucket of slot 3 succeed, so the
  bucket holds two entries, one more than \<^verbatim>\<open>maxSlotSize\<close>; the third insertion is the
  first that fails with \<^verbatim>\<open>ErrSlotIsFull\<close>.
\<close>

theorem ScheduleAt_exceeds_maxSlotSize:
  "maxSlotSize wheel_cap = 1 \<and>
   ScheduleAt 1700000003400000000 (GoVal ''a'') wheel_cap = Inr (None, wheel_cap_a) \<and>
   ScheduleAt 1700000003500000000 (GoVal ''b'') wheel_cap_a = Inr (None, wheel_cap_ab) \<and>
   slotData wheel_cap_ab 3 =
     Some (fmupd (GoVal ''b'') True (fmupd (GoVal ''a'') True fmempty)) \<and>
   len (fmupd (GoVal ''b'') True (fmupd (GoVal ''a'') True (fmempty :: string SyncBoolMap))) = 2 \<and>
   ScheduleAt 1700000003600000000 (GoVal ''c'') wheel_cap_ab =
     Inr (Some ErrSlotIsFull, wheel_cap_ab)"
proof -
  have 1: "ScheduleAt 1700000003400000000 (GoVal ''a'') wheel_cap = Inr (None, wheel_cap_a)"
    by (simp add: ScheduleAt_eval wheel_cap_a_def wheel_cap_def wheel0_def)
  have 2: "ScheduleAt 1700000003500000000 (GoVal ''b'') wheel_cap_a = Inr (None, wheel_cap_ab)"
    by (simp add: ScheduleAt_eval wheel_cap_ab_def wheel_cap_a_def wheel_cap_def wheel0_def)
  have 3: "slotData wheel_cap_ab 3 =
     Some (fmupd (GoVal ''b'') True (fmupd (GoVal ''a'') True fmempty))"
    by (simp add: slotData_def wheel_cap_ab_def wheel_cap_a_def wheel_cap_def wheel0_def)
  have 4: "len (fmupd (GoVal ''b'') True (fmupd (GoVal ''a'') True (fmempty :: string SyncBoolMap))) = 2"
    by (simp add: len_def fcard_fempty fcard_finsert_if)
  have 5: "ScheduleAt 1700000003600000000 (GoVal ''c'') wheel_cap_ab =
     Inr (Some ErrSlotIsFull, wheel_cap_ab)"
    by (simp add: ScheduleAt_eval wheel_cap_ab_def wheel_cap_a_def wheel_cap_def wheel0_def)
  show ?thesis using 1 2 3 4 5 by (simp add: wheel_cap_def)
qed

text \<open>
  C9. Let \<open>x\<close> be in the bucket of slot \<open>b\<close>, the identity index mapping \<open>x\<close> to \<open>b\<close>,
  and let \<^verbatim>\<open>ScheduleAt\<close> of \<open>x\<close> succeed with a target other than \<open>b\<close>. Then the index
  maps \<open>x\<close> to the new slot \<open>b'\<close>, \<open>x\<close> is in the bucket of \<open>b'\<close> and still in the bucket of
  \<open>b\<close>; where the two slots refer to different storage objects, the bucket of \<open>b\<close> is as
  it was.
\<close>

theorem ScheduleAt_reschedule_keeps_old_entry:
  assumes "slotData tw b = Some B" and "x |\<in>| fmdom B"
    and "fmlookup (idSlotMap tw) x = Some b"
    and "ScheduleAt at x tw = Inr (None, tw')"
    and "fmlookup (idSlotMap tw') x \<noteq> Some b"
  shows "\<exists>b' B1 B2. b' \<noteq> b \<and> fmlookup (idSlotMap tw') x = Some b' \<and>
           slotData tw' b = Some B1 \<and> x |\<in>| fmdom B1 \<and>
           slotData tw' b' = Some B2 \<and> x |\<in>| fmdom B2 \<and>
           (slots tw ! nat b \<noteq> slots tw ! nat b' \<longrightarrow> B1 = B)"
proof -
  from ScheduleAt_success [OF assms(4)] obtain index slot where
    r: "0 \<le> index" "index < int (length (slots tw))" and
    sl: "slots tw ! nat index = Some slot" "slot < length (heap tw)" and
    tw': "tw' = tw\<lparr>heap := (heap tw)[slot := fmupd x True (heap tw ! slot)],
                      idSlotMap := fmupd x index (idSlotMap tw)\<rparr>"
    by blast
  from slotData_SomeD [OF assms(1)] obtain p where
    rb: "0 \<le> b" "b < int (length (slots tw))" and
    p: "slots tw ! nat b = Some p" "p < length (heap tw)" "heap tw ! p = B"
    by blast
  have ne: "index \<noteq> b" using assms(5) tw' by auto
  have ix: "fmlookup (idSlotMap tw') x = Some index" using tw' by simp
  have b1: "slotData tw' b = Some (heap tw' ! p)" using rb p tw' by (simp add: slotData_def)
  have in1: "x |\<in>| fmdom (heap tw' ! p)"
    using assms(2) p sl tw' by (cases "p = slot") simp_all
  have b2: "slotData tw' index = Some (heap tw' ! slot)" using r sl tw' by (simp add: slotData_def)
  have in2: "x |\<in>| fmdom (heap tw' ! slot)" using sl tw' by simp
  have same: "slots tw ! nat b \<noteq> slots tw ! nat index \<longrightarrow> heap tw' ! p = B"
    using p sl tw' by auto
  show ?thesis using ne ix b1 in1 b2 in2 same by blast
qed

theorem ScheduleAt_reschedule_keeps_old_entry_witness:
  "slotData wheel_a 3 = Some (fmupd (GoVal ''a'') True fmempty) \<and>
   fmlookup (idSlotMap wheel_a) (GoVal ''a'') = Some 3 \<and>
   ScheduleAt 1700000005200000000 (GoVal ''a'') wheel_a = Inr (None, wheel_aa) \<and>
   fmlookup (idSlotMap wheel_aa) (GoVal ''a'') = Some 5 \<and>
   slotData wheel_aa 3 = Some (fmupd (GoVal ''a'') True fmempty) \<and>
   slotData wheel_aa 5 = Some (fmupd (GoVal ''a'') True fmempty)"
proof -
  have 1: "slotData wheel_a 3 = Some (fmupd (GoVal ''a'') True fmempty)"
    by (simp add: slotData_def wheel_a_def wheel0_def)
  have 2: "GoVal ''a'' |\<in>| fmdom (fmupd (GoVal ''a'') True (fmempty :: string SyncBoolMap))" by simp
  have 3: "fmlookup (idSlotMap wheel_a) (GoVal ''a'') = Some 3" by (simp add: wheel_a_def)
  have 4: "ScheduleAt 1700000005200000000 (GoVal ''a'') wheel_a = Inr (None, wheel_aa)"
    by (simp add: ScheduleAt_eval wheel_aa_def wheel_a_def wheel0_def)
  have 5: "fmlookup (idSlotMap wheel_aa) (GoVal ''a'') \<noteq> Some 3" by (simp add: wheel_aa_def)
  have 6: "fmlookup (idSlotMap wheel_aa) (GoVal ''a'') = Some 5" by (simp add: wheel_aa_def)
  have 7: "slots wheel_a ! nat 3 \<noteq> slots wheel_a ! nat 5" by (simp add: wheel_a_def wheel0_def)
  from ScheduleAt_reschedule_keeps_old_entry [OF 1 2 3 4 5] 6 7
  have "slotData wheel_aa 3 = Some (fmupd (GoVal ''a'') True fmempty)" by auto
  moreover have "slotData wheel_aa 5 = Some (fmupd (GoVal ''a'') True fmempty)"
    by (simp add: slotData_def wheel_aa_def wheel_a_def wheel0_def)
  ultimately show ?thesis using 1 3 4 6 by simp
qed

subsection \<open>The rotation step\<close>

text \<open>
  C6. A rotation step at a slot that refers to a bucket with contents \<open>b\<close> returns. It
  calls the expiration callback with the \<^verbatim>\<open>CurrentStartTime\<close> and the bucket found
  before the step, whose contents are still \<open>b\<close>; the slot now refers to a newly
  allocated, empty bucket; and the identity index has lost exactly the keys of \<open>b\<close>.
\<close>

theorem step_retires_bucket:
  assumes "slotData tw (CurrentIndex tw) = Some b"
  shows "\<exists>p tw'. step now tw = Inr ((CurrentStartTime tw, p), tw') \<and>
           slots tw ! nat (CurrentIndex tw) = Some p \<and> p < length (heap tw) \<and>
           heap tw' = heap tw @ [fmempty] \<and>
           slots tw' = (slots tw)[nat (CurrentIndex tw) := Some (length (heap tw))] \<and>
           slotData tw' (CurrentIndex tw) = Some fmempty \<and>
           heap tw' ! p = b \<and>
           (\<forall>k. fmlookup (idSlotMap tw') k =
                 (if k |\<in>| fmdom b then None else fmlookup (idSlotMap tw) k))"
proof -
  from slotData_SomeD [OF assms] have
    r: "0 \<le> CurrentIndex tw" "CurrentIndex tw < int (length (slots tw))"
    by auto
  from step_result [OF assms, of now] obtain p where
    p: "slots tw ! nat (CurrentIndex tw) = Some p" "p < length (heap tw)" "heap tw ! p = b" and
    st: "step now tw = Inr ((CurrentStartTime tw, p),
             tw\<lparr>CurrentIndex := (if slotCount tw \<le> wrap64 (CurrentIndex tw + 1) then 0
                                   else wrap64 (CurrentIndex tw + 1)),
                CurrentStartTime := now,
                slots := (slots tw)[nat (CurrentIndex tw) := Some (length (heap tw))],
                heap := heap tw @ [fmempty],
                idSlotMap := fmdrop_fset (fmdom b) (idSlotMap tw)\<rparr>)"
    by blast
  show ?thesis
    unfolding st using r p by (simp add: slotData_def nth_append)
qed

theorem step_retires_bucket_witness:
  "slotData wheel_a3 (CurrentIndex wheel_a3) = Some (fmupd (GoVal ''a'') True fmempty) \<and>
   fmlookup (idSlotMap wheel_a3) (GoVal ''a'') = Some 3 \<and>
   (\<exists>tw'. step 1700000004000000000 wheel_a3 = Inr ((1700000003000000000, 3), tw') \<and>
      slotData tw' 3 = Some fmempty \<and>
      heap tw' ! 3 = fmupd (GoVal ''a'') True fmempty \<and>
      fmlookup (idSlotMap tw') (GoVal ''a'') = None)"
proof -
  have h: "slotData wheel_a3 (CurrentIndex wheel_a3) = Some (fmupd (GoVal ''a'') True fmempty)"
    by (simp add: slotData_def wheel_a3_def wheel_a_def wheel0_def)
  have v: "CurrentIndex wheel_a3 = 3" "CurrentStartTime wheel_a3 = 1700000003000000000"
    "slots wheel_a3 ! 3 = Some 3" "fmlookup (idSlotMap wheel_a3) (GoVal ''a'') = Some 3"
    by (simp_all add: wheel_a3_def wheel_a_def wheel0_def)
  from step_retires_bucket [OF h, of 1700000004000000000] v h show ?thesis
    by auto
qed

lemma step_CurrentIndex:
  assumes "step now tw = Inr (call, tw')"
  shows "CurrentIndex tw' =
           (if slotCount tw \<le> wrap64 (CurrentIndex tw + 1) then 0
            else wrap64 (CurrentIndex tw + 1))"
proof -
  from step_Inr [OF assms] obtain b where "slotData tw (CurrentIndex tw) = Some b" by blast
  from step_result [OF this, of now] assms show ?thesis by auto
qed

text \<open>
  C7. With \<open>0 \<le> CurrentIndex < slotCount\<close>, and \<^verbatim>\<open>slotCount\<close> a Go \<^verbatim>\<open>int\<close>, every
  rotation step that returns has set \<^verbatim>\<open>CurrentIndex\<close> to \<open>(CurrentIndex + 1) mod slotCount\<close>,
  which is in the same range; and on a wheel of the shape that \<^verbatim>\<open>New\<close> builds the step
  does return.
\<close>

theorem step_advances_index:
  assumes "0 \<le> CurrentIndex tw" and "CurrentIndex tw < slotCount tw" and "int64 (slotCount tw)"
  shows "(\<forall>call tw'. step now tw = Inr (call, tw') \<longrightarrow>
            CurrentIndex tw' = (CurrentIndex tw + 1) mod slotCount tw \<and>
            0 \<le> CurrentIndex tw' \<and> CurrentIndex tw' < slotCount tw) \<and>
         (wheel_inv tw \<longrightarrow> (\<exists>call tw'. step now tw = Inr (call, tw')))"
proof (intro conjI allI impI)
  fix call tw' assume st: "step now tw = Inr (call, tw')"
  have w: "wrap64 (CurrentIndex tw + 1) = CurrentIndex tw + 1"
    using assms by (intro wrap64_id) (simp add: int64_def)
  have ci: "CurrentIndex tw' =
              (if slotCount tw \<le> CurrentIndex tw + 1 then 0 else CurrentIndex tw + 1)"
    using step_CurrentIndex [OF st] w by simp
  show "CurrentIndex tw' = (CurrentIndex tw + 1) mod slotCount tw"
  proof (cases "slotCount tw \<le> CurrentIndex tw + 1")
    case True
    then have "CurrentIndex tw + 1 = slotCount tw" using assms(2) by simp
    then show ?thesis using ci by simp
  next
    case False
    then show ?thesis using ci assms(1) by simp
  qed
  show "0 \<le> CurrentIndex tw'" "CurrentIndex tw' < slotCount tw"
    using ci assms(1,2) by (simp_all split: if_splits)
next
  assume "wheel_inv tw"
  from step_index [OF this assms(1,2), of now]
  show "\<exists>call tw'. step now tw = Inr (call, tw')" by blast
qed

theorem step_advances_index_witness:
  "0 \<le> CurrentIndex (wheel0\<lparr>CurrentIndex := 9\<rparr>) \<and>
   CurrentIndex (wheel0\<lparr>CurrentIndex := 9\<rparr>) < slotCount (wheel0\<lparr>CurrentIndex := 9\<rparr>) \<and>
   int64 (slotCount (wheel0\<lparr>CurrentIndex := 9\<rparr>)) \<and>
   wheel_inv (wheel0\<lparr>CurrentIndex := 9\<rparr>) \<and>
   (\<exists>call tw'. step 1700000010000000000 (wheel0\<lparr>CurrentIndex := 9\<rparr>) = Inr (call, tw') \<and>
      CurrentIndex tw' = 0)"
proof -
  have inv: "wheel_inv (wheel0\<lparr>CurrentIndex := 9\<rparr>)"
    by (simp add: wheel_inv_def wheel0_def int64_def)
  have r: "0 \<le> CurrentIndex (wheel0\<lparr>CurrentIndex := 9\<rparr>)"
    "CurrentIndex (wheel0\<lparr>CurrentIndex := 9\<rparr>) < slotCount (wheel0\<lparr>CurrentIndex := 9\<rparr>)"
    "int64 (slotCount (wheel0\<lparr>CurrentIndex := 9\<rparr>))"
    by (simp_all add: wheel0_def int64_def)
  from step_advances_index [OF r, of 1700000010000000000] inv obtain call tw' where
    "step 1700000010000000000 (wheel0\<lparr>CurrentIndex := 9\<rparr>) = Inr (call, tw')"
    "CurrentIndex tw' = (CurrentIndex (wheel0\<lparr>CurrentIndex := 9\<rparr>) + 1)
                          mod slotCount (wheel0\<lparr>CurrentIndex := 9\<rparr>)"
    by blast
  moreover have "(CurrentIndex (wheel0\<lparr>CurrentIndex := 9\<rparr>) + 1)
                          mod slotCount (wheel0\<lparr>CurrentIndex := 9\<rparr>) = 0"
    by (simp add: wheel0_def)
  ultimately show ?thesis using inv r by auto
qed

subsection \<open>Remove\<close>

text \<open>
  C8. \<^verbatim>\<open>Remove(x)\<close> leaves the wheel as it is when \<open>x\<close> is not in the identity index; it
  returns without a panic on every well-formed wheel; and it never changes the
  identity index, so the mapping of a present \<open>x\<close> stays.
\<close>

theorem Remove_never_fails:
  "(fmlookup (idSlotMap tw) x = None \<longrightarrow> Remove x tw = Inr tw) \<and>
   (wheel_inv tw \<longrightarrow> (\<exists>tw'. Remove x tw = Inr tw')) \<and>
   (\<forall>tw'. Remove x tw = Inr tw' \<longrightarrow> idSlotMap tw' = idSlotMap tw)"
proof (intro conjI impI allI)
  assume "fmlookup (idSlotMap tw) x = None"
  then show "Remove x tw = Inr tw" by (simp add: Remove_def)
next
  assume inv: "wheel_inv tw"
  show "\<exists>tw'. Remove x tw = Inr tw'"
  proof (cases "fmlookup (idSlotMap tw) x")
    case None
    then show ?thesis by (simp add: Remove_def)
  next
    case (Some i)
    have "fmpred (\<lambda>k i. 0 \<le> i \<and> i < slotCount tw) (idSlotMap tw)"
      using inv unfolding wheel_inv_def by blast
    then have i: "0 \<le> i" "i < slotCount tw" using Some by (auto simp: fmpred_iff)
    from wheel_inv_slotData [OF inv i] obtain b where "slotData tw i = Some b" by blast
    from slotData_SomeD [OF this] show ?thesis
      using Some by (auto simp: Remove_def)
  qed
next
  fix tw' assume "Remove x tw = Inr tw'"
  then show "idSlotMap tw' = idSlotMap tw"
    by (auto simp: Remove_def split: if_splits option.splits)
qed

theorem Remove_never_fails_witness:
  "fmlookup (idSlotMap wheel_a) (GoVal ''z'') = None \<and>
   Remove (GoVal ''z'') wheel_a = Inr wheel_a \<and>
   wheel_inv wheel_a \<and>
   fmlookup (idSlotMap wheel_a) (GoVal ''a'') = Some 3 \<and>
   (\<exists>tw'. Remove (GoVal ''a'') wheel_a = Inr tw' \<and>
      fmlookup (idSlotMap tw') (GoVal ''a'') = Some 3)"
proof -
  have "wheel_inv wheel0"
    by (simp add: wheel_inv_def wheel0_def int64_def)
  then have inv: "wheel_inv wheel_a"
    by (rule wheel_inv_ScheduleAt [OF ScheduleAt_wheel0_a])
  have z: "fmlookup (idSlotMap wheel_a) (GoVal ''z'') = None"
    and a: "fmlookup (idSlotMap wheel_a) (GoVal ''a'') = Some 3"
    by (simp_all add: wheel_a_def)
  from Remove_never_fails [of wheel_a "GoVal ''z''"] z
  have 1: "Remove (GoVal ''z'') wheel_a = Inr wheel_a" by blast
  from Remove_never_fails [of wheel_a "GoVal ''a''"] inv obtain tw' where
    2: "Remove (GoVal ''a'') wheel_a = Inr tw'" and "idSlotMap tw' = idSlotMap wheel_a"
    by blast
  then have "fmlookup (idSlotMap tw') (GoVal ''a'') = Some 3" using a by simp
  then show ?thesis using 1 2 inv z a by blast
qed

text \<open>What \<^verbatim>\<open>Remove\<close> deletes is an \<^verbatim>\<open>int\<close> key: the entry of an identity that is not
  an \<^verbatim>\<open>int\<close> stays in every bucket.\<close>

lemma Remove_GoVal_untouched:
  assumes "Remove x tw = Inr tw'"
  shows "fmlookup (heap tw' ! p) (GoVal a) = fmlookup (heap tw ! p) (GoVal a)"
proof (cases "fmlookup (idSlotMap tw) x")
  case None
  then show ?thesis using assms by (simp add: Remove_def)
next
  case (Some i)
  from Remove_present [OF Some assms] obtain q where
    q: "q < length (heap tw)" and
    tw': "tw' = tw\<lparr>heap := (heap tw)[q := fmdrop (GoInt i) (heap tw ! q)]\<rparr>"
    by blast
  show ?thesis using q tw' by (cases "p = q") simp_all
qed

text \<open>
  C1, at the identity \<open>''a''\<close> scheduled into the bucket of slot 3. The identity index maps
  \<open>''a''\<close> to 3 and \<open>''a''\<close> is in that bucket, yet \<^verbatim>\<open>Remove\<close> leaves the wheel as it is;
  four ticks later the bucket handed to the expiration callback still holds \<open>''a''\<close>.
\<close>

theorem Remove_leaves_identity:
  "ScheduleAt 1700000003400000000 (GoVal ''a'') wheel0 = Inr (None, wheel_a) \<and>
   fmlookup (idSlotMap wheel_a) (GoVal ''a'') = Some 3 \<and>
   slotData wheel_a 3 = Some (fmupd (GoVal ''a'') True fmempty) \<and>
   Remove (GoVal ''a'') wheel_a = Inr wheel_a \<and>
   ticks [1700000001000000000, 1700000002000000000, 1700000003000000000,
          1700000004000000000] wheel_a =
     Inr ([(1700000000000000000, 0), (1700000001000000000, 1),
           (1700000002000000000, 2), (1700000003000000000, 3)], wheel_a4) \<and>
   fmlookup (heap wheel_a4 ! 3) (GoVal ''a'') = Some True"
proof -
  have 1: "slotData wheel_a 3 = Some (fmupd (GoVal ''a'') True fmempty)"
    by (simp add: slotData_def wheel_a_def wheel0_def)
  have 2: "Remove (GoVal ''a'') wheel_a = Inr wheel_a"
    by (simp add: Remove_def wheel_a_def wheel0_def fmdrop_fmupd)
  have 3: "ticks [1700000001000000000, 1700000002000000000, 1700000003000000000,
          1700000004000000000] wheel_a =
     Inr ([(1700000000000000000, 0), (1700000001000000000, 1),
           (1700000002000000000, 2), (1700000003000000000, 3)], wheel_a4)"
    by (simp add: step_def wrap64_def wheel_a4_def wheel_a3_def wheel_a_def wheel0_def
        fmdrop_fmupd_same)
  have 4: "fmlookup (heap wheel_a4 ! 3) (GoVal ''a'') = Some True"
    by (simp add: wheel_a4_def wheel_a3_def wheel_a_def wheel0_def)
  show ?thesis
    using ScheduleAt_wheel0_a 1 2 3 4 by (simp add: wheel_a_def)
qed

subsection \<open>What the operations leave alone\<close>

text \<open>
  C10. \<^verbatim>\<open>ScheduleAt\<close> and \<^verbatim>\<open>Remove\<close>, whatever they return, leave \<^verbatim>\<open>CurrentIndex\<close>,
  \<^verbatim>\<open>CurrentStartTime\<close>, \<^verbatim>\<open>tickTime\<close>, \<^verbatim>\<open>slotCount\<close> and \<^verbatim>\<open>maxSlotSize\<close> as they were,
  leave every slot of the ring referring to the storage object it referred to, allocate
  nothing, and change the contents of at most one bucket of the store. A rotation step
  does set \<^verbatim>\<open>CurrentStartTime\<close> and does make a slot of the ring refer to another storage
  object.
\<close>

theorem ScheduleAt_Remove_frame:
  "(\<forall>e tw'. ScheduleAt at x tw = Inr (e, tw') \<longrightarrow>
      CurrentIndex tw' = CurrentIndex tw \<and> CurrentStartTime tw' = CurrentStartTime tw \<and>
      tickTime tw' = tickTime tw \<and> slotCount tw' = slotCount tw \<and>
      maxSlotSize tw' = maxSlotSize tw \<and> slots tw' = slots tw \<and>
      length (heap tw') = length (heap tw) \<and>
      (\<exists>p. \<forall>q. q \<noteq> p \<longrightarrow> heap tw' ! q = heap tw ! q)) \<and>
   (\<forall>tw'. Remove x tw = Inr tw' \<longrightarrow>
      CurrentIndex tw' = CurrentIndex tw \<and> CurrentStartTime tw' = CurrentStartTime tw \<and>
      tickTime tw' = tickTime tw \<and> slotCount tw' = slotCount tw \<and>
      maxSlotSize tw' = maxSlotSize tw \<and> slots tw' = slots tw \<and>
      length (heap tw') = length (heap tw) \<and>
      (\<exists>p. \<forall>q. q \<noteq> p \<longrightarrow> heap tw' ! q = heap tw ! q)) \<and>
   (\<forall>call tw'. step now tw = Inr (call, tw') \<longrightarrow>
      CurrentStartTime tw' = now \<and> slots tw' \<noteq> slots tw)"
  using ScheduleAt_frame [of at x tw] Remove_frame [of x tw] step_frame [of now tw]
  by blast

theorem ScheduleAt_Remove_frame_witness:
  "ScheduleAt 1700000005200000000 (GoVal ''a'') wheel_a = Inr (None, wheel_aa) \<and>
   CurrentIndex wheel_aa = CurrentIndex wheel_a \<and>
   CurrentStartTime wheel_aa = CurrentStartTime wheel_a \<and>
   slots wheel_aa = slots wheel_a \<and>
   (\<exists>p. \<forall>q. q \<noteq> p \<longrightarrow> heap wheel_aa ! q = heap wheel_a ! q) \<and>
   Remove (GoVal ''a'') wheel_a = Inr wheel_a \<and>
   (\<exists>call tw'. step 1700000001000000000 wheel_a = Inr (call, tw') \<and>
      CurrentStartTime tw' = 1700000001000000000 \<and> slots tw' \<noteq> slots wheel_a)"
proof -
  have 1: "ScheduleAt 1700000005200000000 (GoVal ''a'') wheel_a = Inr (None, wheel_aa)"
    by (simp add: ScheduleAt_eval wheel_aa_def wheel_a_def wheel0_def)
  have 2: "Remove (GoVal ''a'') wheel_a = Inr wheel_a"
    by (simp add: Remove_def wheel_a_def wheel0_def fmdrop_fmupd)
  have "slotData wheel_a (CurrentIndex wheel_a) = Some fmempty"
    by (simp add: slotData_def wheel_a_def wheel0_def)
  from step_result [OF this, of 1700000001000000000] obtain call tw' where
    3: "step 1700000001000000000 wheel_a = Inr (call, tw')"
    by blast
  from ScheduleAt_Remove_frame
    [of 1700000005200000000 "GoVal ''a''" wheel_a 1700000001000000000] 1 2 3
  show ?thesis by blast
qed

end
